theory Spec2Isabelle
  imports Main "HOL-Library.Word"
begin

section \<open>Machine integers\<close>

text \<open>
  The program is read on an LP64 platform: \<^verbatim>\<open>std::size_t\<close> has 64 bits and
  \<^verbatim>\<open>unsigned\<close> has 32. Both wrap around; a conversion from the wider to the
  narrower type keeps the low 32 bits (\<open>ucast\<close>).
\<close>

type_synonym size_t = "64 word"
type_synonym unsigned = "32 word"

section \<open>The dynamic array underneath (\<^verbatim>\<open>MyVector = std::vector\<close>)\<close>

text \<open>
  A vector is the list of its elements. The only failure the model knows is the
  \<^verbatim>\<open>std::length_error\<close> a vector throws when it is asked to hold more than
  \<^verbatim>\<open>max_size()\<close> elements; \<^verbatim>\<open>max_size()\<close> differs from one element type to
  the next and is a parameter. A throw is the value \<open>Inl\<close>; the state left behind by
  a throw is not represented. Running out of memory below \<^verbatim>\<open>max_size()\<close> is outside
  the model. \<^verbatim>\<open>operator[]\<close> is unchecked: reading out of range is undefined
  behaviour, which the model makes visible as \<open>None\<close> (and as the outcome
  \<open>undefined_behaviour\<close> of a client's call that does it).
\<close>

datatype error = length_error | undefined_behaviour

definition vec_size :: "'a list \<Rightarrow> size_t" where
  "vec_size xs = of_nat (length xs)"

definition vec_resize :: "size_t \<Rightarrow> 'a \<Rightarrow> 'a list \<Rightarrow> size_t \<Rightarrow> error + 'a list" where
  "vec_resize max_size d xs n =
     (if max_size < n then Inl length_error
      else Inr (take (unat n) xs @ replicate (unat n - length xs) d))"

definition vec_push_back :: "size_t \<Rightarrow> 'a list \<Rightarrow> 'a \<Rightarrow> error + 'a list" where
  "vec_push_back max_size xs x =
     (if length xs < unat max_size then Inr (xs @ [x]) else Inl length_error)"

section \<open>Item types and storage\<close>

text \<open>
  \<^verbatim>\<open>TItem<Types...>\<close> is a tuple of fields in declaration order. A value of it is
  the list of its field values, over one universal value type \<open>'v\<close>. What the program
  takes from the field types is gathered in a record: the value a value-initialised
  field has (what \<^verbatim>\<open>resize\<close> fills new slots with) and the \<^verbatim>\<open>max_size()\<close> of
  the vector of each field type and of the vector of whole items.
  \<^verbatim>\<open>sizeof...(Types)\<close> is the number of fields.
\<close>

record 'v TItem =
  Types_init :: "'v list"
  Types_max_size :: "size_t list"
  TItem_max_size :: size_t

definition sizeof_Types :: "'v TItem \<Rightarrow> nat" where
  "sizeof_Types T = length (Types_init T)"

definition make_integer_sequence :: "nat \<Rightarrow> nat list" where
  "make_integer_sequence n = [0..<n]"

datatype DataLayout = SoA | AoS

text \<open>
  \<^verbatim>\<open>DataLayoutPolicy::type\<close>: for AoS one vector of items, for SoA a tuple of
  vectors, one for each field. Both are lists of lists: the outer index is the
  position for AoS and the field for SoA.
\<close>

type_synonym 'v storage = "'v list list"

section \<open>References, the field proxy and the element view\<close>

text \<open>
  A reference is the location it refers to: \<open>Slot i j\<close> is element \<open>j\<close> of the
  \<open>i\<close>-th inner sequence of the storage, \<open>Outside a\<close> is an object of the client
  at address \<open>a\<close>, which no container owns.
\<close>

datatype loc = Slot nat nat | Outside nat

definition load :: "'v storage \<Rightarrow> nat \<Rightarrow> nat \<Rightarrow> 'v option" where
  "load s i j = (if i < length s \<and> j < length (s ! i) then Some (s ! i ! j) else None)"

definition store :: "'v storage \<Rightarrow> nat \<Rightarrow> nat \<Rightarrow> 'v \<Rightarrow> 'v storage option" where
  "store s i j v =
     (if i < length s \<and> j < length (s ! i) then Some (s[i := (s ! i)[j := v]]) else None)"

text \<open>
  \<^verbatim>\<open>ref_wrap<T>\<close> is a \<^verbatim>\<open>std::reference_wrapper<T>\<close>: it holds one reference,
  set by its constructor \<^verbatim>\<open>ref_wrap(T&)\<close> and read by \<^verbatim>\<open>get()\<close> and by the
  conversion \<^verbatim>\<open>operator T&()\<close>.
\<close>

datatype ref_wrap = ref_wrap loc

fun get :: "ref_wrap \<Rightarrow> loc" where
  "get (ref_wrap l) = l"

text \<open>
  The right-hand side of an assignment, with its value category: an rvalue of the
  field's type carries its value, an lvalue names an object of the client (its
  address and the value it holds).
\<close>

datatype 'v expr = Rvalue 'v | Lvalue nat 'v

fun value_of :: "'v expr \<Rightarrow> 'v" where
  "value_of (Rvalue v) = v"
| "value_of (Lvalue a v) = v"

text \<open>
  \<^verbatim>\<open>void operator=(T&& other_) { this->get() = other_; }\<close> stores into the object
  referred to. A store into an object of the client leaves the storage as it is.
\<close>

definition assign_rvalue :: "ref_wrap \<Rightarrow> 'v \<Rightarrow> 'v storage \<Rightarrow> 'v storage option" where
  "assign_rvalue w v s = (case get w of Slot i j \<Rightarrow> store s i j v | Outside a \<Rightarrow> Some s)"

text \<open>
  \<^verbatim>\<open>ref_wrap\<close> declares no assignment from another \<^verbatim>\<open>ref_wrap\<close>, so the
  compiler generates one; it copies the base \<^verbatim>\<open>std::reference_wrapper\<close>, that is,
  it rebinds the reference and stores nothing.
\<close>

definition assign_copy :: "ref_wrap \<Rightarrow> ref_wrap \<Rightarrow> ref_wrap" where
  "assign_copy w other = other"

text \<open>
  The assignment \<^verbatim>\<open>proxy = e\<close> as overload resolution settles it. The parameter
  \<^verbatim>\<open>T&&\<close> of the declared operator is an rvalue reference (\<open>T\<close> is the class's
  parameter, not deduced), so it binds an rvalue of type \<open>T\<close> only. For an lvalue
  the declared operator is not viable; the generated assignment is, through the
  converting constructor \<^verbatim>\<open>ref_wrap(T&)\<close>. The result is the proxy after the
  assignment and the storage after it.
\<close>

fun assign :: "ref_wrap \<Rightarrow> 'v expr \<Rightarrow> 'v storage \<Rightarrow> (ref_wrap \<times> 'v storage) option" where
  "assign w (Rvalue v) s = map_option (Pair w) (assign_rvalue w v s)"
| "assign w (Lvalue a v) s = Some (assign_copy w (ref_wrap (Outside a)), s)"

text \<open>
  \<^verbatim>\<open>DataLayoutPolicy::value_type\<close>, the element view: for AoS a reference to the
  stored item (\<^verbatim>\<open>TItem<Types...>&\<close>), for SoA an item of proxies
  (\<^verbatim>\<open>TItem<ref_wrap<Types>...>\<close>) built anew by every access.
\<close>

datatype value_type = AoS_ref nat | SoA_item "ref_wrap list"

section \<open>The AoS policy\<close>

text \<open>
  \<^verbatim>\<open>get\<close> returns a reference to \<^verbatim>\<open>c_[position_]\<close>; \<^verbatim>\<open>resize\<close>,
  \<^verbatim>\<open>push_back\<close> and \<^verbatim>\<open>size\<close> are those of the one vector of items. A new
  item is value-initialised: each of its fields is.
\<close>

definition AoS_get :: "'v storage \<Rightarrow> size_t \<Rightarrow> value_type option" where
  "AoS_get c position =
     (if unat position < length c then Some (AoS_ref (unat position)) else None)"

definition AoS_resize :: "'v TItem \<Rightarrow> 'v storage \<Rightarrow> size_t \<Rightarrow> error + 'v storage" where
  "AoS_resize T c n = vec_resize (TItem_max_size T) (Types_init T) c n"

definition AoS_push_back :: "'v TItem \<Rightarrow> 'v storage \<Rightarrow> 'v list \<Rightarrow> error + 'v storage" where
  "AoS_push_back T c val = vec_push_back (TItem_max_size T) c val"

definition AoS_size :: "'v storage \<Rightarrow> size_t" where
  "AoS_size c = vec_size c"

section \<open>The SoA policy\<close>

text \<open>
  The three private helpers unroll the parameter pack \<open>Ids\<close>, from left to right.
  \<^verbatim>\<open>doGet\<close> wraps a reference to element \<^verbatim>\<open>position_\<close> of each field's array;
  \<^verbatim>\<open>doResize\<close> resizes each array and \<^verbatim>\<open>doPushBack\<close> appends to each array the
  matching component of the value, stopping at the first throw. \<^verbatim>\<open>doResize\<close> takes
  its size as \<^verbatim>\<open>unsigned\<close>, which the vector's \<^verbatim>\<open>resize\<close> widens again.
\<close>

fun doGet :: "'v storage \<Rightarrow> size_t \<Rightarrow> nat list \<Rightarrow> ref_wrap list option" where
  "doGet c position [] = Some []"
| "doGet c position (i # Ids) =
     (if unat position < length (c ! i)
      then map_option ((#) (ref_wrap (Slot i (unat position)))) (doGet c position Ids)
      else None)"

fun doResize :: "'v TItem \<Rightarrow> 'v storage \<Rightarrow> unsigned \<Rightarrow> nat list \<Rightarrow> error + 'v storage" where
  "doResize T c n [] = Inr c"
| "doResize T c n (i # Ids) =
     (case vec_resize (Types_max_size T ! i) (Types_init T ! i) (c ! i) (ucast n) of
        Inl e \<Rightarrow> Inl e
      | Inr xs \<Rightarrow> doResize T (c[i := xs]) n Ids)"

fun doPushBack :: "'v TItem \<Rightarrow> 'v storage \<Rightarrow> 'v list \<Rightarrow> nat list \<Rightarrow> error + 'v storage" where
  "doPushBack T c val [] = Inr c"
| "doPushBack T c val (i # Ids) =
     (case vec_push_back (Types_max_size T ! i) (c ! i) (val ! i) of
        Inl e \<Rightarrow> Inl e
      | Inr xs \<Rightarrow> doPushBack T (c[i := xs]) val Ids)"

definition SoA_get :: "'v TItem \<Rightarrow> 'v storage \<Rightarrow> size_t \<Rightarrow> value_type option" where
  "SoA_get T c position =
     map_option SoA_item (doGet c position (make_integer_sequence (sizeof_Types T)))"

definition SoA_resize :: "'v TItem \<Rightarrow> 'v storage \<Rightarrow> size_t \<Rightarrow> error + 'v storage" where
  "SoA_resize T c n = doResize T c (ucast n) (make_integer_sequence (sizeof_Types T))"

definition SoA_push_back :: "'v TItem \<Rightarrow> 'v storage \<Rightarrow> 'v list \<Rightarrow> error + 'v storage" where
  "SoA_push_back T c val = doPushBack T c val (make_integer_sequence (sizeof_Types T))"

definition SoA_size :: "'v storage \<Rightarrow> size_t" where
  "SoA_size c = vec_size (c ! 0)"

section \<open>The container\<close>

text \<open>
  \<^verbatim>\<open>BaseContainer<TContainer, TDataLayout, TItem>\<close> owns \<^verbatim>\<open>mValues\<close> and hands
  every operation to the policy its template parameters select; the layout and
  the item type are arguments of each operation here. A default-initialised
  \<^verbatim>\<open>mValues\<close> is an empty vector, or a tuple of empty vectors.
\<close>

record 'v BaseContainer =
  mValues :: "'v storage"

definition mValues_init :: "DataLayout \<Rightarrow> 'v TItem \<Rightarrow> 'v storage" where
  "mValues_init L T = (case L of AoS \<Rightarrow> [] | SoA \<Rightarrow> replicate (sizeof_Types T) [])"

definition resize ::
  "DataLayout \<Rightarrow> 'v TItem \<Rightarrow> 'v BaseContainer \<Rightarrow> size_t \<Rightarrow> error + 'v BaseContainer" where
  "resize L T c n =
     map_sum id (\<lambda>s. c\<lparr>mValues := s\<rparr>)
       (case L of AoS \<Rightarrow> AoS_resize T (mValues c) n | SoA \<Rightarrow> SoA_resize T (mValues c) n)"

definition push_back ::
  "DataLayout \<Rightarrow> 'v TItem \<Rightarrow> 'v BaseContainer \<Rightarrow> 'v list \<Rightarrow> error + 'v BaseContainer" where
  "push_back L T c val =
     map_sum id (\<lambda>s. c\<lparr>mValues := s\<rparr>)
       (case L of AoS \<Rightarrow> AoS_push_back T (mValues c) val
                | SoA \<Rightarrow> SoA_push_back T (mValues c) val)"

definition size_c :: "DataLayout \<Rightarrow> 'v BaseContainer \<Rightarrow> size_t" where
  "size_c L c = (case L of AoS \<Rightarrow> AoS_size (mValues c) | SoA \<Rightarrow> SoA_size (mValues c))"

definition subscript ::
  "DataLayout \<Rightarrow> 'v TItem \<Rightarrow> 'v BaseContainer \<Rightarrow> size_t \<Rightarrow> value_type option" where
  "subscript L T c position =
     (case L of AoS \<Rightarrow> AoS_get (mValues c) position
              | SoA \<Rightarrow> SoA_get T (mValues c) position)"

definition BaseContainer :: "DataLayout \<Rightarrow> 'v TItem \<Rightarrow> size_t \<Rightarrow> error + 'v BaseContainer" where
  "BaseContainer L T n = resize L T \<lparr>mValues = mValues_init L T\<rparr> n"

text \<open>
  What client code does with an element view: \<^verbatim>\<open>std::get<k>(c[position])\<close> read
  as a value, and \<^verbatim>\<open>std::get<k>(c[position]) = e\<close>. Through the AoS reference
  both act on field \<open>k\<close> of the stored item, whatever the value category of
  \<open>e\<close>; through the SoA view they act on the \<open>k\<close>-th proxy.
\<close>

definition read_field ::
  "DataLayout \<Rightarrow> 'v TItem \<Rightarrow> 'v BaseContainer \<Rightarrow> size_t \<Rightarrow> nat \<Rightarrow> 'v option" where
  "read_field L T c position k =
     (case subscript L T c position of
        None \<Rightarrow> None
      | Some (AoS_ref p) \<Rightarrow> load (mValues c) p k
      | Some (SoA_item ws) \<Rightarrow>
          (if k < length ws
           then (case get (ws ! k) of Slot i j \<Rightarrow> load (mValues c) i j | Outside a \<Rightarrow> None)
           else None))"

definition write_field ::
  "DataLayout \<Rightarrow> 'v TItem \<Rightarrow> 'v BaseContainer \<Rightarrow> size_t \<Rightarrow> nat \<Rightarrow> 'v expr
     \<Rightarrow> 'v BaseContainer option" where
  "write_field L T c position k e =
     (case subscript L T c position of
        None \<Rightarrow> None
      | Some (AoS_ref p) \<Rightarrow>
          map_option (\<lambda>s. c\<lparr>mValues := s\<rparr>) (store (mValues c) p k (value_of e))
      | Some (SoA_item ws) \<Rightarrow>
          (if k < length ws
           then map_option (\<lambda>r. c\<lparr>mValues := snd r\<rparr>) (assign (ws ! k) e (mValues c))
           else None))"

section \<open>The iterator\<close>

text \<open>
  An iterator holds the address of its container (a pointer it does not own) and
  a position. The containers live in a heap, a map from addresses to containers;
  following a pointer the heap does not map is undefined behaviour (\<open>None\<close>).
\<close>

record Iterator =
  mContainer :: nat
  mIterPosition :: size_t

type_synonym 'v heap = "nat \<rightharpoonup> 'v BaseContainer"

text \<open>
  \<^verbatim>\<open>std::numeric_limits<std::size_t>::infinity()\<close>: \<^verbatim>\<open>std::size_t\<close> is an
  integer type, for which \<^verbatim>\<open>has_infinity\<close> is false and \<^verbatim>\<open>infinity()\<close> returns
  \<^verbatim>\<open>std::size_t()\<close>, that is 0. The largest value is \<^verbatim>\<open>max()\<close>, which the
  program does not call.
\<close>

definition numeric_limits_infinity :: size_t where
  "numeric_limits_infinity = 0"

definition numeric_limits_max :: size_t where
  "numeric_limits_max = - 1"

text \<open>
  The constructor \<^verbatim>\<open>Iterator(container_, position_)\<close> and the default member
  initialisers (\<^verbatim>\<open>mContainer = nullptr\<close>, address 0 here, and
  \<^verbatim>\<open>mIterPosition = infinity()\<close>). The class has no default constructor; the
  initialisers are what one would use.
\<close>

definition Iterator :: "nat \<Rightarrow> size_t \<Rightarrow> Iterator" where
  "Iterator container position = \<lparr>mContainer = container, mIterPosition = position\<rparr>"

definition Iterator_init :: Iterator where
  "Iterator_init = \<lparr>mContainer = 0, mIterPosition = numeric_limits_infinity\<rparr>"

text \<open>
  \<^verbatim>\<open>operator=(Iterator const&)\<close>, \<^verbatim>\<open>operator=(std::nullptr_t const&)\<close> and
  \<^verbatim>\<open>operator bool\<close> are declared to return a value and have no \<^verbatim>\<open>return\<close>
  statement: control runs off the end of the function, which is undefined
  behaviour in every call. The outcome of a call is \<open>Return\<close> with the value
  returned or \<open>No_return\<close>; nothing that follows a \<open>No_return\<close> has a meaning.
\<close>

datatype 'a outcome = Return 'a | No_return

text \<open>
  The two assignments give the iterator as the statements of the body leave it,
  and the outcome. \<^verbatim>\<open>operator=(Iterator const&)\<close> stores the other position; the
  line that would copy the container is commented out.
  \<^verbatim>\<open>operator=(std::nullptr_t const&)\<close> stores \<^verbatim>\<open>infinity()\<close>.
  \<^verbatim>\<open>operator bool\<close> computes a comparison and drops it.
\<close>

definition assign_it :: "Iterator \<Rightarrow> Iterator \<Rightarrow> Iterator \<times> Iterator outcome" where
  "assign_it it other = (it\<lparr>mIterPosition := mIterPosition other\<rparr>, No_return)"

definition assign_nullptr :: "Iterator \<Rightarrow> Iterator \<times> Iterator outcome" where
  "assign_nullptr it = (it\<lparr>mIterPosition := numeric_limits_infinity\<rparr>, No_return)"

definition operator_bool :: "Iterator \<Rightarrow> bool outcome" where
  "operator_bool it = No_return"

definition neq :: "Iterator \<Rightarrow> Iterator \<Rightarrow> bool" where
  "neq lhs rhs = (mIterPosition lhs \<noteq> mIterPosition rhs)"

definition eq :: "Iterator \<Rightarrow> Iterator \<Rightarrow> bool" where
  "eq lhs rhs = (\<not> neq lhs rhs)"

definition plus_assign :: "Iterator \<Rightarrow> size_t \<Rightarrow> Iterator" where
  "plus_assign it n = it\<lparr>mIterPosition := mIterPosition it + n\<rparr>"

definition minus_assign :: "Iterator \<Rightarrow> size_t \<Rightarrow> Iterator" where
  "minus_assign it n = it\<lparr>mIterPosition := mIterPosition it - n\<rparr>"

definition incr :: "Iterator \<Rightarrow> Iterator" where
  "incr it = plus_assign it 1"

definition decr :: "Iterator \<Rightarrow> Iterator" where
  "decr it = minus_assign it 1"

definition deref :: "DataLayout \<Rightarrow> 'v TItem \<Rightarrow> 'v heap \<Rightarrow> Iterator \<Rightarrow> value_type option" where
  "deref L T h it =
     (case h (mContainer it) of
        None \<Rightarrow> None
      | Some c \<Rightarrow> subscript L T c (mIterPosition it))"

text \<open>
  \<^verbatim>\<open>begin()\<close> and \<^verbatim>\<open>end()\<close> of the container at address \<open>this\<close>.
\<close>

definition begin_c :: "nat \<Rightarrow> Iterator" where
  "begin_c this = Iterator this 0"

definition end_c :: "DataLayout \<Rightarrow> nat \<Rightarrow> 'v BaseContainer \<Rightarrow> Iterator" where
  "end_c L this c = Iterator this (size_c L c)"

text \<open>
  The loop \<^verbatim>\<open>for (it = first; it != stop; ++it) { auto&& i = *it; ... }\<close>, as
  the range-based \<^verbatim>\<open>for\<close> of \<^verbatim>\<open>main\<close> expands: \<open>stop\<close> is computed once,
  and every round dereferences the iterator. The function returns, in order, the
  position of each dereference with the element view it gave; a dereference with
  no defined result ends the loop with \<open>None\<close>. The loop ends for every pair of
  iterators, since positions wrap around.
\<close>

function for_range ::
  "DataLayout \<Rightarrow> 'v TItem \<Rightarrow> 'v heap \<Rightarrow> Iterator \<Rightarrow> Iterator
     \<Rightarrow> (size_t \<times> value_type) list \<Rightarrow> (size_t \<times> value_type) list option" where
  "for_range L T h it stop visited =
     (if neq it stop
      then (case deref L T h it of
              None \<Rightarrow> None
            | Some i \<Rightarrow> for_range L T h (incr it) stop (visited @ [(mIterPosition it, i)]))
      else Some visited)"
  by pat_completeness auto
termination
proof (relation "measure (\<lambda>(L, T, h, it, stop, visited).
    unat (mIterPosition stop - mIterPosition it))")
  show "wf (measure (\<lambda>(L, T, h, it, stop, visited).
      unat (mIterPosition stop - mIterPosition it)))"
    by simp
next
  fix L :: DataLayout and T :: "'v TItem" and h :: "'v heap" and it stop :: Iterator
    and visited :: "(size_t \<times> value_type) list" and i :: value_type
  assume "neq it stop"
  then have nz: "mIterPosition stop - mIterPosition it \<noteq> 0"
    by (auto simp: neq_def)
  have "unat ((mIterPosition stop - mIterPosition it) - 1)
      < unat (mIterPosition stop - mIterPosition it)"
    using nz by (simp add: unat_minus_one unat_gt_0)
  then have "unat (mIterPosition stop - (mIterPosition it + 1))
      < unat (mIterPosition stop - mIterPosition it)"
    by (simp only: diff_diff_eq)
  then show "((L, T, h, incr it, stop, visited @ [(mIterPosition it, i)]),
      (L, T, h, it, stop, visited))
      \<in> measure (\<lambda>(L, T, h, it, stop, visited).
          unat (mIterPosition stop - mIterPosition it))"
    by (simp add: incr_def plus_assign_def)
qed

declare for_range.simps [simp del]

text \<open>
  \<^verbatim>\<open>for (auto&& i : c)\<close> for the container \<open>c\<close> at address \<open>this\<close>.
\<close>

definition iterate ::
  "DataLayout \<Rightarrow> 'v TItem \<Rightarrow> 'v heap \<Rightarrow> nat \<Rightarrow> (size_t \<times> value_type) list option" where
  "iterate L T h this =
     (case h this of
        None \<Rightarrow> None
      | Some c \<Rightarrow> for_range L T h (begin_c this) (end_c L this c) [])"

text \<open>
  \<^verbatim>\<open>it = other; *it\<close>: the dereference follows the assignment, and has a result
  only if the assignment returned.
\<close>

definition assign_then_deref ::
  "DataLayout \<Rightarrow> 'v TItem \<Rightarrow> 'v heap \<Rightarrow> Iterator \<Rightarrow> Iterator \<Rightarrow> value_type option" where
  "assign_then_deref L T h it other =
     (case snd (assign_it it other) of
        No_return \<Rightarrow> None
      | Return it' \<Rightarrow> deref L T h it')"

section \<open>Clients\<close>

text \<open>
  The calls a client makes on a container it has constructed: \<^verbatim>\<open>resize(n)\<close>,
  \<^verbatim>\<open>push_back(val)\<close> and the write \<^verbatim>\<open>std::get<k>(c[position]) = e\<close>. A
  sequence of calls stops at the first one that throws or has no defined outcome.
\<close>

datatype 'v call = Resize size_t | PushBack "'v list" | Write size_t nat "'v expr"

fun apply_call ::
  "DataLayout \<Rightarrow> 'v TItem \<Rightarrow> 'v BaseContainer \<Rightarrow> 'v call \<Rightarrow> error + 'v BaseContainer" where
  "apply_call L T c (Resize n) = resize L T c n"
| "apply_call L T c (PushBack val) = push_back L T c val"
| "apply_call L T c (Write position k e) =
     (case write_field L T c position k e of
        None \<Rightarrow> Inl undefined_behaviour
      | Some c' \<Rightarrow> Inr c')"

fun run ::
  "DataLayout \<Rightarrow> 'v TItem \<Rightarrow> 'v BaseContainer \<Rightarrow> 'v call list \<Rightarrow> error + 'v BaseContainer" where
  "run L T c [] = Inr c"
| "run L T c (x # xs) =
     (case apply_call L T c x of
        Inl e \<Rightarrow> Inl e
      | Inr c' \<Rightarrow> run L T c' xs)"

text \<open>
  What a client observes of a container: for each position below \<^verbatim>\<open>size()\<close>,
  the value read from each field.
\<close>

definition observe :: "DataLayout \<Rightarrow> 'v TItem \<Rightarrow> 'v BaseContainer \<Rightarrow> 'v option list list" where
  "observe L T c =
     map (\<lambda>p. map (\<lambda>k. read_field L T c (of_nat p) k) [0..<sizeof_Types T])
       [0..<unat (size_c L c)]"

text \<open>
  The shape the types give the SoA storage (one array for each field, and at least
  one field, since \<^verbatim>\<open>size\<close> reads \<^verbatim>\<open>std::get<0>\<close>), and the invariant of the
  SoA layout: every array is as long as \<^verbatim>\<open>size()\<close> says.
\<close>

definition SoA_shape :: "'v TItem \<Rightarrow> 'v storage \<Rightarrow> bool" where
  "SoA_shape T s \<longleftrightarrow> 0 < sizeof_Types T \<and> length s = sizeof_Types T"

definition SoA_invariant :: "'v TItem \<Rightarrow> 'v storage \<Rightarrow> bool" where
  "SoA_invariant T s \<longleftrightarrow>
     length s = sizeof_Types T \<and> list_all (\<lambda>xs. length xs = unat (SoA_size s)) s"

definition container_ok :: "DataLayout \<Rightarrow> 'v TItem \<Rightarrow> 'v BaseContainer \<Rightarrow> bool" where
  "container_ok L T c =
     (case L of
        AoS \<Rightarrow> True
      | SoA \<Rightarrow> SoA_shape T (mValues c) \<and> SoA_invariant T (mValues c))"

section \<open>An example item type\<close>

text \<open>
  Two integer fields, a value and a tag, value-initialised to 0; the limits are
  those of a \<^verbatim>\<open>std::vector\<close> of 8-byte elements (\<open>2\<^sup>6\<^sup>0 - 1\<close>) and of
  16-byte items (\<open>2\<^sup>5\<^sup>9 - 1\<close>).
\<close>

definition Item2 :: "int TItem" where
  "Item2 = \<lparr>Types_init = [0, 0],
            Types_max_size = [1152921504606846975, 1152921504606846975],
            TItem_max_size = 576460752303423487\<rparr>"

section \<open>Stepping a position\<close>

lemma unat_plus_one_less:
  fixes p q :: size_t
  assumes "p < q"
  shows "unat (p + 1) = Suc (unat p)"
proof -
  have "unat p < unat q"
    using assms by (simp add: word_less_nat_alt)
  moreover have "unat q < 2 ^ 64"
    using unsigned_less [of q, where ?'a = nat] by simp
  ultimately have "unat p + unat (1 :: size_t) < 2 ^ LENGTH(64)"
    by simp
  then have "unat (p + 1) = unat p + unat (1 :: size_t)"
    by (simp only: unat_add_lem)
  then show ?thesis by simp
qed

section \<open>Facts about vectors and the unrolled helpers\<close>

lemma map_sum_eq_Inr: "map_sum f g x = Inr y \<longleftrightarrow> (\<exists>z. x = Inr z \<and> y = g z)"
  by (cases x) auto

lemma unat_ucast_unsigned: "unat (ucast (n :: unsigned) :: size_t) = unat n"
proof -
  have "unat n < 2 ^ 32"
    using unsigned_less [of n, where ?'a = nat] by simp
  then have "unat n < 2 ^ 64"
    by simp
  then show ?thesis
    by (simp add: unsigned_ucast_eq take_bit_nat_eq_self)
qed

lemma unat_ucast_size_t: "unat (ucast (n :: size_t) :: unsigned) = unat n mod 2 ^ 32"
  by (simp add: unsigned_ucast_eq take_bit_eq_mod)

lemma vec_resize_length: "vec_resize m d xs n = Inr ys \<Longrightarrow> length ys = unat n"
  by (auto simp: vec_resize_def split: if_splits)

lemma vec_push_back_Inr:
  "vec_push_back m xs x = Inr ys \<Longrightarrow> ys = xs @ [x] \<and> Suc (length xs) < 2 ^ 64"
proof -
  assume a: "vec_push_back m xs x = Inr ys"
  have "unat m < 2 ^ 64"
    using unsigned_less [of m, where ?'a = nat] by simp
  with a show ?thesis
    by (auto simp: vec_push_back_def split: if_splits)
qed

lemma doResize_length: "doResize T c n ids = Inr c' \<Longrightarrow> length c' = length c"
  by (induction ids arbitrary: c) (auto split: sum.splits)

lemma doResize_nth:
  "doResize T c n ids = Inr c' \<Longrightarrow> distinct ids \<Longrightarrow> i < length c \<Longrightarrow>
   c' ! i = (if i \<in> set ids
             then take (unat n) (c ! i) @ replicate (unat n - length (c ! i)) (Types_init T ! i)
             else c ! i)"
proof (induction ids arbitrary: c)
  case Nil
  then show ?case by simp
next
  case (Cons j ids)
  from Cons.prems(1) obtain xs where
    xs: "vec_resize (Types_max_size T ! j) (Types_init T ! j) (c ! j) (ucast n) = Inr xs"
    and rest: "doResize T (c[j := xs]) n ids = Inr c'"
    by (auto split: sum.splits)
  from xs have xs_eq:
    "xs = take (unat n) (c ! j) @ replicate (unat n - length (c ! j)) (Types_init T ! j)"
    by (auto simp: vec_resize_def unat_ucast_unsigned split: if_splits)
  from Cons.prems have "distinct ids" "j \<notin> set ids" "i < length (c[j := xs])"
    by simp_all
  with Cons.IH [OF rest] have
    "c' ! i = (if i \<in> set ids
               then take (unat n) (c[j := xs] ! i) @
                    replicate (unat n - length (c[j := xs] ! i)) (Types_init T ! i)
               else c[j := xs] ! i)"
    by simp
  with \<open>j \<notin> set ids\<close> Cons.prems(3) xs_eq show ?case
    by (cases "i = j") auto
qed

lemma doPushBack_length: "doPushBack T c val ids = Inr c' \<Longrightarrow> length c' = length c"
  by (induction ids arbitrary: c) (auto split: sum.splits)

lemma doPushBack_nth:
  "doPushBack T c val ids = Inr c' \<Longrightarrow> distinct ids \<Longrightarrow> i < length c \<Longrightarrow>
   c' ! i = (if i \<in> set ids then c ! i @ [val ! i] else c ! i) \<and>
   (i \<in> set ids \<longrightarrow> Suc (length (c ! i)) < 2 ^ 64)"
proof (induction ids arbitrary: c)
  case Nil
  then show ?case by simp
next
  case (Cons j ids)
  from Cons.prems(1) obtain xs where
    xs: "vec_push_back (Types_max_size T ! j) (c ! j) (val ! j) = Inr xs"
    and rest: "doPushBack T (c[j := xs]) val ids = Inr c'"
    by (auto split: sum.splits)
  from vec_push_back_Inr [OF xs] have xs_eq: "xs = c ! j @ [val ! j]"
    and small: "Suc (length (c ! j)) < 2 ^ 64"
    by simp_all
  from Cons.prems have "distinct ids" "j \<notin> set ids" "i < length (c[j := xs])"
    by simp_all
  with Cons.IH [OF rest] have
    "c' ! i = (if i \<in> set ids then c[j := xs] ! i @ [val ! i] else c[j := xs] ! i) \<and>
     (i \<in> set ids \<longrightarrow> Suc (length (c[j := xs] ! i)) < 2 ^ 64)"
    by simp
  with \<open>j \<notin> set ids\<close> Cons.prems(3) xs_eq small show ?case
    by (cases "i = j") auto
qed

lemma doGet_Some:
  "doGet c position ids = Some ws \<longleftrightarrow>
   (\<forall>i \<in> set ids. unat position < length (c ! i)) \<and>
   ws = map (\<lambda>i. ref_wrap (Slot i (unat position))) ids"
  by (induction ids arbitrary: ws) auto


section \<open>The SoA invariant is kept\<close>

lemma unat_of_nat_size_t: "m < 2 ^ 64 \<Longrightarrow> unat (of_nat m :: size_t) = m"
  by (simp add: unat_of_nat)

lemma SoA_invariantI:
  assumes "length s = sizeof_Types T"
    and "\<And>i. i < sizeof_Types T \<Longrightarrow> length (s ! i) = m"
    and "m < 2 ^ 64"
  shows "SoA_invariant T s"
proof (cases "sizeof_Types T")
  case 0
  with assms(1) show ?thesis
    by (simp add: SoA_invariant_def)
next
  case (Suc k)
  with assms(2) have "length (s ! 0) = m"
    by simp
  with assms(3) have "unat (SoA_size s) = m"
    by (simp add: SoA_size_def vec_size_def unat_of_nat_size_t)
  with assms(1,2) show ?thesis
    by (simp add: SoA_invariant_def list_all_length)
qed

lemma SoA_invariantD:
  "SoA_invariant T s \<Longrightarrow> i < sizeof_Types T \<Longrightarrow> length (s ! i) = unat (SoA_size s)"
  by (simp add: SoA_invariant_def list_all_length)

lemma SoA_resize_length:
  assumes "SoA_resize T c n = Inr c'" and "length c = sizeof_Types T"
  shows "length c' = sizeof_Types T"
    and "i < sizeof_Types T \<Longrightarrow> length (c' ! i) = unat n mod 2 ^ 32"
proof -
  from assms show "length c' = sizeof_Types T"
    by (simp add: SoA_resize_def doResize_length)
  assume "i < sizeof_Types T"
  with assms doResize_nth [of T c "ucast n" "[0..<sizeof_Types T]" c' i]
  show "length (c' ! i) = unat n mod 2 ^ 32"
    by (simp add: SoA_resize_def make_integer_sequence_def unat_ucast_size_t)
qed

lemma SoA_resize_invariant:
  assumes "SoA_resize T c n = Inr c'" and "length c = sizeof_Types T"
  shows "SoA_invariant T c'"
proof (rule SoA_invariantI)
  show "length c' = sizeof_Types T"
    using assms by (rule SoA_resize_length)
  show "length (c' ! i) = unat n mod 2 ^ 32" if "i < sizeof_Types T" for i
    using assms that by (rule SoA_resize_length)
  have "unat n mod 2 ^ 32 < (2 ^ 32 :: nat)"
    by simp
  then show "unat n mod 2 ^ 32 < (2 ^ 64 :: nat)"
    by (rule less_trans) simp
qed

lemma SoA_push_back_nth:
  assumes "SoA_push_back T c val = Inr c'" and "length c = sizeof_Types T"
    and "i < sizeof_Types T"
  shows "c' ! i = c ! i @ [val ! i]" and "Suc (length (c ! i)) < 2 ^ 64"
  using assms doPushBack_nth [of T c val "[0..<sizeof_Types T]" c' i]
  by (simp_all add: SoA_push_back_def make_integer_sequence_def)

lemma SoA_push_back_invariant:
  assumes "SoA_push_back T c val = Inr c'" and "SoA_invariant T c"
  shows "SoA_invariant T c'"
proof (cases "sizeof_Types T")
  case 0
  with assms show ?thesis
    by (simp add: SoA_push_back_def make_integer_sequence_def)
next
  case (Suc k)
  from assms(2) have len: "length c = sizeof_Types T"
    by (simp add: SoA_invariant_def)
  show ?thesis
  proof (rule SoA_invariantI)
    show "length c' = sizeof_Types T"
      using assms(1) len by (simp add: SoA_push_back_def doPushBack_length)
    show "length (c' ! i) = Suc (unat (SoA_size c))" if "i < sizeof_Types T" for i
      using SoA_push_back_nth(1) [OF assms(1) len that] SoA_invariantD [OF assms(2) that]
      by simp
    have "Suc (length (c ! 0)) < 2 ^ 64"
      using SoA_push_back_nth(2) [OF assms(1) len, of 0] Suc by simp
    then show "Suc (unat (SoA_size c)) < 2 ^ 64"
      using SoA_invariantD [OF assms(2), of 0] Suc by simp
  qed
qed

lemma store_lengths: "store s i j v = Some s' \<Longrightarrow> map length s' = map length s"
  by (auto simp: store_def map_update list_update_same_conv split: if_splits)

lemma SoA_invariant_lengths:
  assumes "map length s' = map length s"
  shows "SoA_invariant T s' = SoA_invariant T s"
proof -
  from assms have len: "length s' = length s"
    by (rule map_eq_imp_length_eq)
  have nth: "length (s' ! i) = length (s ! i)" if "i < length s" for i
    using assms that len by (metis nth_map)
  show ?thesis
  proof (cases s)
    case Nil
    with len show ?thesis by simp
  next
    case (Cons x xs)
    then have "SoA_size s' = SoA_size s"
      using nth [of 0] by (simp add: SoA_size_def vec_size_def)
    then show ?thesis
      using len nth by (simp add: SoA_invariant_def list_all_length)
  qed
qed

lemma assign_lengths: "assign w e s = Some (w', s') \<Longrightarrow> map length s' = map length s"
  by (cases e) (auto simp: assign_rvalue_def store_lengths split: loc.splits)

lemma write_field_SoA_invariant:
  assumes "write_field SoA T c position k e = Some c'"
  shows "SoA_invariant T (mValues c') = SoA_invariant T (mValues c)"
proof -
  from assms obtain w s' ws where "assign (ws ! k) e (mValues c) = Some (w, s')"
    and "mValues c' = s'"
    by (auto simp: write_field_def subscript_def SoA_get_def split: option.splits if_splits)
  then show ?thesis
    using assign_lengths SoA_invariant_lengths by blast
qed

lemma apply_call_invariant:
  assumes "apply_call SoA T c x = Inr c'" and "SoA_invariant T (mValues c)"
  shows "SoA_invariant T (mValues c')"
proof (cases x)
  case (Resize n)
  with assms show ?thesis
    by (auto simp: resize_def map_sum_eq_Inr SoA_invariant_def [of T "mValues c"]
        intro: SoA_resize_invariant)
next
  case (PushBack val)
  with assms show ?thesis
    by (auto simp: push_back_def map_sum_eq_Inr intro: SoA_push_back_invariant)
next
  case (Write position k e)
  with assms show ?thesis
    by (auto simp: write_field_SoA_invariant split: option.splits)
qed

lemma run_invariant:
  "run SoA T c xs = Inr c' \<Longrightarrow> SoA_invariant T (mValues c) \<Longrightarrow> SoA_invariant T (mValues c')"
proof (induction xs arbitrary: c)
  case Nil
  then show ?case by simp
next
  case (Cons x xs)
  then show ?case
    by (auto split: sum.splits dest: apply_call_invariant)
qed

lemma BaseContainer_invariant:
  "BaseContainer SoA T n = Inr c \<Longrightarrow> SoA_invariant T (mValues c)"
  by (auto simp: BaseContainer_def resize_def mValues_init_def map_sum_eq_Inr
      intro: SoA_resize_invariant)

lemma reachable_container_ok:
  assumes "0 < sizeof_Types T"
    and "BaseContainer L T n = Inr c0" and "run L T c0 calls = Inr c"
  shows "container_ok L T c"
proof (cases L)
  case AoS
  then show ?thesis
    by (simp add: container_ok_def)
next
  case SoA
  with assms have "SoA_invariant T (mValues c)"
    by (blast intro: run_invariant BaseContainer_invariant)
  with assms(1) SoA show ?thesis
    by (simp add: container_ok_def SoA_shape_def SoA_invariant_def)
qed

text \<open>The definitions a concrete run unfolds.\<close>

lemmas ev = BaseContainer_def resize_def push_back_def SoA_resize_def SoA_push_back_def
  AoS_resize_def AoS_push_back_def make_integer_sequence_def sizeof_Types_def
  vec_resize_def vec_push_back_def mValues_init_def Item2_def upt_rec size_c_def
  SoA_size_def AoS_size_def vec_size_def

lemmas ev2 = ev read_field_def write_field_def subscript_def SoA_get_def AoS_get_def
  load_def store_def assign_rvalue_def assign_copy_def observe_def

text \<open>
  C2. Take a SoA container as its constructor leaves it and make any sequence of
  \<^verbatim>\<open>resize\<close> and \<^verbatim>\<open>push_back\<close> calls (writes through element views may be
  mixed in) of which none throws. Then the storage has one array for each field,
  and every array has the length \<^verbatim>\<open>size()\<close> returns, which reads the first
  array only.
\<close>

theorem SoA_arrays_same_length:
  assumes "BaseContainer SoA T n = Inr c0" and "run SoA T c0 calls = Inr c"
  shows "length (mValues c) = sizeof_Types T \<and>
         (\<forall>xs \<in> set (mValues c). length xs = unat (size_c SoA c))"
proof -
  have "SoA_invariant T (mValues c)"
    using assms by (blast intro: run_invariant BaseContainer_invariant)
  then show ?thesis
    by (simp add: SoA_invariant_def size_c_def list_all_iff)
qed

theorem SoA_arrays_same_length_witness:
  "BaseContainer SoA Item2 3 = Inr \<lparr>mValues = [[0, 0, 0], [0, 0, 0]]\<rparr> \<and>
   run SoA Item2 \<lparr>mValues = [[0, 0, 0], [0, 0, 0]]\<rparr> [PushBack [15, 7], Resize 2]
     = Inr \<lparr>mValues = [[0, 0], [0, 0]]\<rparr> \<and>
   length (mValues \<lparr>mValues = [[0, 0], [0, 0 :: int]]\<rparr>) = sizeof_Types Item2 \<and>
   list_all (\<lambda>xs. length xs = unat (size_c SoA \<lparr>mValues = [[0, 0], [0, 0 :: int]]\<rparr>))
     [[0, 0], [0, 0]]"
proof -
  have "BaseContainer SoA Item2 3 = Inr \<lparr>mValues = replicate 3 0 # [replicate 3 0]\<rparr>"
    by (simp add: ev)
  then have h1: "BaseContainer SoA Item2 3 = Inr \<lparr>mValues = [[0, 0, 0], [0, 0, 0]]\<rparr>"
    by (simp add: eval_nat_numeral)
  have h2: "run SoA Item2 \<lparr>mValues = [[0, 0, 0], [0, 0, 0]]\<rparr> [PushBack [15, 7], Resize 2]
     = Inr \<lparr>mValues = [[0, 0], [0, 0]]\<rparr>"
    by (simp add: ev)
  from SoA_arrays_same_length [OF h1 h2] show ?thesis
    using h1 h2 by (simp add: list_all_iff)
qed

section \<open>Appending and indexed access\<close>

lemma subscript_SoA:
  assumes "length (mValues c) = sizeof_Types T"
  shows "subscript SoA T c position = Some view \<longleftrightarrow>
    (\<forall>i < sizeof_Types T. unat position < length (mValues c ! i)) \<and>
    view = SoA_item (map (\<lambda>i. ref_wrap (Slot i (unat position))) [0..<sizeof_Types T])"
  by (auto simp: subscript_def SoA_get_def make_integer_sequence_def doGet_Some)

lemma read_field_SoA:
  assumes "length (mValues c) = sizeof_Types T"
    and "\<forall>i < sizeof_Types T. unat position < length (mValues c ! i)"
    and "k < sizeof_Types T"
  shows "read_field SoA T c position k = Some (mValues c ! k ! unat position)"
proof -
  have "subscript SoA T c position =
      Some (SoA_item (map (\<lambda>i. ref_wrap (Slot i (unat position))) [0..<sizeof_Types T]))"
    using assms(1,2) by (simp add: subscript_SoA)
  then show ?thesis
    using assms by (simp add: read_field_def load_def)
qed

lemma read_field_AoS:
  assumes "unat position < length (mValues c)"
    and "k < length (mValues c ! unat position)"
  shows "read_field AoS T c position k = Some (mValues c ! unat position ! k)"
  using assms by (simp add: read_field_def subscript_def AoS_get_def load_def)

lemma unat_vec_size: "length xs < 2 ^ 64 \<Longrightarrow> unat (vec_size xs) = length xs"
  by (simp add: vec_size_def unat_of_nat_size_t)

lemma vec_size_snoc: "vec_size (xs @ [x]) = vec_size xs + 1"
  by (simp add: vec_size_def)

text \<open>
  C3. In either layout, let a container be well formed (for SoA: one array for
  each field, all as long as \<^verbatim>\<open>size()\<close> says) and let \<^verbatim>\<open>push_back(val)\<close> of a
  complete item return. Then \<^verbatim>\<open>size()\<close> has grown by one, without wrapping
  around, and the element view at the old \<^verbatim>\<open>size()\<close> reads, field by field, the
  fields of \<open>val\<close>.
\<close>

theorem push_back_appends:
  assumes ok: "container_ok L T c"
    and val: "length val = sizeof_Types T"
    and push: "push_back L T c val = Inr c'"
  shows "size_c L c' = size_c L c + 1 \<and>
         unat (size_c L c') = Suc (unat (size_c L c)) \<and>
         (\<forall>k < sizeof_Types T. read_field L T c' (size_c L c) k = Some (val ! k))"
proof (cases L)
  case AoS
  from push AoS obtain s where s: "vec_push_back (TItem_max_size T) (mValues c) val = Inr s"
    and c': "c' = c\<lparr>mValues := s\<rparr>"
    by (auto simp: push_back_def map_sum_eq_Inr AoS_push_back_def)
  from vec_push_back_Inr [OF s] have s_eq: "s = mValues c @ [val]"
    and small: "Suc (length (mValues c)) < 2 ^ 64"
    by simp_all
  have n: "unat (size_c L c) = length (mValues c)"
    using small AoS by (simp add: size_c_def AoS_size_def unat_vec_size)
  have n': "unat (size_c L c') = Suc (length (mValues c))"
    using small AoS c' s_eq by (simp add: size_c_def AoS_size_def unat_vec_size)
  have "size_c L c' = size_c L c + 1"
    using AoS c' s_eq by (simp add: size_c_def AoS_size_def vec_size_snoc)
  moreover have "read_field L T c' (size_c L c) k = Some (val ! k)" if "k < sizeof_Types T" for k
    using that val n AoS c' s_eq by (simp add: read_field_AoS)
  ultimately show ?thesis
    using n n' by simp
next
  case SoA
  from ok SoA have shape: "length (mValues c) = sizeof_Types T" and pos: "0 < sizeof_Types T"
    and inv: "SoA_invariant T (mValues c)"
    by (simp_all add: container_ok_def SoA_shape_def)
  from push SoA obtain s where s: "SoA_push_back T (mValues c) val = Inr s"
    and c': "c' = c\<lparr>mValues := s\<rparr>"
    by (auto simp: push_back_def map_sum_eq_Inr)
  have len_s: "length s = sizeof_Types T"
    using s shape by (simp add: SoA_push_back_def doPushBack_length)
  have nth: "s ! i = mValues c ! i @ [val ! i]" if "i < sizeof_Types T" for i
    using SoA_push_back_nth(1) [OF s shape that] .
  have small: "Suc (length (mValues c ! 0)) < 2 ^ 64"
    using SoA_push_back_nth(2) [OF s shape pos] .
  have n: "unat (size_c L c) = length (mValues c ! i)" if "i < sizeof_Types T" for i
    using SoA_invariantD [OF inv that] SoA by (simp add: size_c_def)
  have n': "unat (size_c L c') = Suc (length (mValues c ! 0))"
    using small SoA c' nth [OF pos]
    by (simp add: size_c_def SoA_size_def unat_vec_size)
  have "size_c L c' = size_c L c + 1"
    using SoA c' nth [OF pos] by (simp add: size_c_def SoA_size_def vec_size_snoc)
  moreover have "read_field L T c' (size_c L c) k = Some (val ! k)" if "k < sizeof_Types T" for k
  proof -
    have "read_field SoA T c' (size_c L c) k = Some (mValues c' ! k ! unat (size_c L c))"
    proof (rule read_field_SoA)
      show "length (mValues c') = sizeof_Types T"
        using c' len_s by simp
      show "\<forall>i < sizeof_Types T. unat (size_c L c) < length (mValues c' ! i)"
        using c' nth n by simp
      show "k < sizeof_Types T"
        by (rule that)
    qed
    then show ?thesis
      using SoA c' nth [OF that] n [OF that] by simp
  qed
  ultimately show ?thesis
    using n [OF pos] n' by simp
qed

theorem push_back_appends_witness:
  "container_ok SoA Item2 \<lparr>mValues = [[0, 0, 0], [0, 0, 0]]\<rparr> \<and>
   push_back SoA Item2 \<lparr>mValues = [[0, 0, 0], [0, 0, 0]]\<rparr> [15, 7]
     = Inr \<lparr>mValues = [[0, 0, 0, 15], [0, 0, 0, 7]]\<rparr> \<and>
   size_c SoA \<lparr>mValues = [[0, 0, 0, 15], [0, 0, 0, 7 :: int]]\<rparr> = 4 \<and>
   read_field SoA Item2 \<lparr>mValues = [[0, 0, 0, 15], [0, 0, 0, 7]]\<rparr> 3 0 = Some 15 \<and>
   read_field SoA Item2 \<lparr>mValues = [[0, 0, 0, 15], [0, 0, 0, 7]]\<rparr> 3 1 = Some 7 \<and>
   container_ok AoS Item2 \<lparr>mValues = [[1, 2]]\<rparr> \<and>
   push_back AoS Item2 \<lparr>mValues = [[1, 2]]\<rparr> [15, 7] = Inr \<lparr>mValues = [[1, 2], [15, 7]]\<rparr> \<and>
   size_c AoS \<lparr>mValues = [[1, 2], [15, 7 :: int]]\<rparr> = 2 \<and>
   read_field AoS Item2 \<lparr>mValues = [[1, 2], [15, 7]]\<rparr> 1 0 = Some 15 \<and>
   read_field AoS Item2 \<lparr>mValues = [[1, 2], [15, 7]]\<rparr> 1 1 = Some 7"
proof -
  have s1: "container_ok SoA Item2 \<lparr>mValues = [[0, 0, 0], [0, 0, 0]]\<rparr>"
    by (simp add: container_ok_def SoA_shape_def SoA_invariant_def ev)
  have v: "length [15, 7 :: int] = sizeof_Types Item2"
    by (simp add: ev)
  have s2: "push_back SoA Item2 \<lparr>mValues = [[0, 0, 0], [0, 0, 0]]\<rparr> [15, 7]
     = Inr \<lparr>mValues = [[0, 0, 0, 15], [0, 0, 0, 7]]\<rparr>"
    by (simp add: ev)
  have a1: "container_ok AoS Item2 \<lparr>mValues = [[1, 2]]\<rparr>"
    by (simp add: container_ok_def)
  have a2: "push_back AoS Item2 \<lparr>mValues = [[1, 2]]\<rparr> [15, 7]
     = Inr \<lparr>mValues = [[1, 2], [15, 7]]\<rparr>"
    by (simp add: ev)
  from push_back_appends [OF s1 v s2] push_back_appends [OF a1 v a2] show ?thesis
    using s1 s2 a1 a2 by (simp add: ev2)
qed

section \<open>Iteration\<close>

lemma subscript_view:
  assumes ok: "container_ok L T c" and p: "p < unat (size_c L c)"
  shows "subscript L T c (of_nat p) =
    Some (case L of
            AoS \<Rightarrow> AoS_ref p
          | SoA \<Rightarrow> SoA_item (map (\<lambda>i. ref_wrap (Slot i p)) [0..<sizeof_Types T]))"
proof -
  have "unat (size_c L c) < 2 ^ 64"
    using unsigned_less [of "size_c L c", where ?'a = nat] by simp
  with p have up: "unat (of_nat p :: size_t) = p"
    by (simp add: unat_of_nat_size_t)
  show ?thesis
  proof (cases L)
    case AoS
    have "unat (of_nat (length (mValues c)) :: size_t) \<le> length (mValues c)"
      by (simp add: unat_of_nat)
    with p AoS have "p < length (mValues c)"
      by (simp add: size_c_def AoS_size_def vec_size_def)
    with AoS up show ?thesis
      by (simp add: subscript_def AoS_get_def)
  next
    case SoA
    with ok have len: "length (mValues c) = sizeof_Types T"
      and inv: "SoA_invariant T (mValues c)"
      by (simp_all add: container_ok_def SoA_shape_def)
    have "\<forall>i < sizeof_Types T. unat (of_nat p :: size_t) < length (mValues c ! i)"
      using SoA_invariantD [OF inv] p SoA up by (simp add: size_c_def)
    with SoA len up show ?thesis
      by (simp add: subscript_SoA)
  qed
qed

lemma subscript_in_range:
  assumes "container_ok L T c" and "p < unat (size_c L c)"
  shows "\<exists>i. subscript L T c (of_nat p) = Some i"
  using subscript_view [OF assms] by simp

lemma for_range_from:
  assumes "h (mContainer it) = Some c"
    and "mIterPosition it \<le> mIterPosition stop"
    and "\<And>p. p < unat (mIterPosition stop) \<Longrightarrow> \<exists>i. subscript L T c (of_nat p) = Some i"
  shows "for_range L T h it stop visited =
     Some (visited @ map (\<lambda>p. (of_nat p, the (subscript L T c (of_nat p))))
       [unat (mIterPosition it)..<unat (mIterPosition stop)])"
  using assms
proof (induction L T h it stop visited rule: for_range.induct)
  case (1 L T h it stop visited)
  show ?case
  proof (cases "neq it stop")
    case False
    then show ?thesis by (simp add: neq_def for_range.simps)
  next
    case True
    then have lt: "mIterPosition it < mIterPosition stop"
      using "1.prems"(2) by (simp add: neq_def)
    then have suc: "unat (mIterPosition it + 1) = Suc (unat (mIterPosition it))"
      by (rule unat_plus_one_less)
    have le: "mIterPosition (incr it) \<le> mIterPosition stop"
      using lt by (simp add: incr_def plus_assign_def inc_le)
    have lt': "unat (mIterPosition it) < unat (mIterPosition stop)"
      using lt by (simp add: word_less_nat_alt)
    from "1.prems"(3) [OF lt'] obtain i
      where i: "subscript L T c (mIterPosition it) = Some i"
      by auto
    then have d: "deref L T h it = Some i"
      using "1.prems"(1) by (simp add: deref_def)
    have h': "h (mContainer (incr it)) = Some c"
      using "1.prems"(1) by (simp add: incr_def plus_assign_def)
    have "for_range L T h it stop visited =
        for_range L T h (incr it) stop (visited @ [(mIterPosition it, i)])"
      using True d by (subst for_range.simps) simp
    also have "\<dots> = Some ((visited @ [(mIterPosition it, i)]) @
        map (\<lambda>p. (of_nat p, the (subscript L T c (of_nat p))))
          [unat (mIterPosition (incr it))..<unat (mIterPosition stop)])"
      using "1.IH" [OF True d h' le "1.prems"(3)] by simp
    also have "\<dots> = Some (visited @ map (\<lambda>p. (of_nat p, the (subscript L T c (of_nat p))))
        [unat (mIterPosition it)..<unat (mIterPosition stop)])"
      using lt' suc i by (simp add: incr_def plus_assign_def upt_conv_Cons)
    finally show ?thesis .
  qed
qed

lemma unat_of_nat_upt:
  "n \<le> unat (w :: size_t) \<Longrightarrow> map (\<lambda>p. unat (of_nat p :: size_t)) [0..<n] = [0..<n]"
proof (induction n)
  case 0
  then show ?case by simp
next
  case (Suc n)
  then have "unat (of_nat n :: size_t) = n"
    using le_unat_uoi [of n w] by simp
  with Suc show ?case by simp
qed

text \<open>
  C6. Let the container at address \<open>this\<close> be well formed. The loop from
  \<^verbatim>\<open>begin()\<close> to \<^verbatim>\<open>end()\<close>, one step at a time and stopping when the
  iterator equals \<^verbatim>\<open>end()\<close>, returns. It dereferences the positions
  \<open>0, 1, \<dots>, size() - 1\<close> in this order, each once and none skipped, and each
  dereference gives the element view of that container at that position, which
  is in range: the reference to item \<open>p\<close> for AoS, the proxies of slot \<open>p\<close> of
  every array for SoA.
\<close>

theorem iterate_positions:
  assumes "h this = Some c" and "container_ok L T c"
  shows "\<exists>vs. iterate L T h this = Some vs \<and>
           map (unat \<circ> fst) vs = [0..<unat (size_c L c)] \<and>
           sorted_wrt (<) (map (unat \<circ> fst) vs) \<and>
           map (Some \<circ> snd) vs =
             map (\<lambda>p. subscript L T c (of_nat p)) [0..<unat (size_c L c)] \<and>
           map snd vs =
             map (\<lambda>p. case L of
                         AoS \<Rightarrow> AoS_ref p
                       | SoA \<Rightarrow> SoA_item (map (\<lambda>i. ref_wrap (Slot i p)) [0..<sizeof_Types T]))
               [0..<unat (size_c L c)]"
proof -
  define vs where "vs = map (\<lambda>p. (of_nat p :: size_t, the (subscript L T c (of_nat p))))
    [0..<unat (size_c L c)]"
  have "for_range L T h (begin_c this) (end_c L this c) [] =
      Some ([] @ map (\<lambda>p. (of_nat p, the (subscript L T c (of_nat p))))
        [unat (mIterPosition (begin_c this))..<unat (mIterPosition (end_c L this c))])"
  proof (rule for_range_from)
    show "h (mContainer (begin_c this)) = Some c"
      using assms(1) by (simp add: begin_c_def Iterator_def)
    show "mIterPosition (begin_c this) \<le> mIterPosition (end_c L this c)"
      by (simp add: begin_c_def Iterator_def)
    show "\<exists>i. subscript L T c (of_nat p) = Some i"
      if "p < unat (mIterPosition (end_c L this c))" for p
      using that assms(2) by (simp add: end_c_def Iterator_def subscript_in_range)
  qed
  then have run: "iterate L T h this = Some vs"
    using assms(1) by (simp add: iterate_def vs_def begin_c_def end_c_def Iterator_def)
  have pos: "map (unat \<circ> fst) vs = [0..<unat (size_c L c)]"
    using unat_of_nat_upt [of "unat (size_c L c)" "size_c L c"]
    by (simp add: vs_def comp_def)
  have views: "map (Some \<circ> snd) vs =
      map (\<lambda>p. subscript L T c (of_nat p)) [0..<unat (size_c L c)]"
    using subscript_in_range [OF assms(2)] by (auto simp: vs_def)
  have exact: "map snd vs =
      map (\<lambda>p. case L of
                  AoS \<Rightarrow> AoS_ref p
                | SoA \<Rightarrow> SoA_item (map (\<lambda>i. ref_wrap (Slot i p)) [0..<sizeof_Types T]))
        [0..<unat (size_c L c)]"
    using subscript_view [OF assms(2)] by (simp add: vs_def)
  have "sorted_wrt (<) (map (unat \<circ> fst) vs)"
    by (simp only: pos sorted_wrt_upt)
  with run pos views exact show ?thesis
    by blast
qed

theorem iterate_positions_witness:
  "container_ok SoA Item2 \<lparr>mValues = [[1, 2], [3, 4]]\<rparr> \<and>
   iterate SoA Item2 (Map.empty(7 \<mapsto> \<lparr>mValues = [[1, 2], [3, 4]]\<rparr>)) 7 =
     Some [(0, SoA_item [ref_wrap (Slot 0 0), ref_wrap (Slot 1 0)]),
           (1, SoA_item [ref_wrap (Slot 0 1), ref_wrap (Slot 1 1)])] \<and>
   container_ok AoS Item2 \<lparr>mValues = [[1, 3], [2, 4]]\<rparr> \<and>
   iterate AoS Item2 (Map.empty(7 \<mapsto> \<lparr>mValues = [[1, 3], [2, 4]]\<rparr>)) 7 =
     Some [(0, AoS_ref 0), (1, AoS_ref 1)]"
proof -
  have h: "(Map.empty(7 \<mapsto> c)) (7 :: nat) = Some c" for c :: "int BaseContainer"
    by simp
  have s: "container_ok SoA Item2 \<lparr>mValues = [[1, 2], [3, 4]]\<rparr>"
    by (simp add: container_ok_def SoA_shape_def SoA_invariant_def ev)
  have a: "container_ok AoS Item2 \<lparr>mValues = [[1, 3], [2, 4]]\<rparr>"
    by (simp add: container_ok_def)
  from iterate_positions [where h = "Map.empty(7 \<mapsto> \<lparr>mValues = [[1, 2], [3, 4]]\<rparr>)"
        and this = 7, OF h s]
    iterate_positions [where h = "Map.empty(7 \<mapsto> \<lparr>mValues = [[1, 3], [2, 4]]\<rparr>)"
        and this = 7, OF h a]
  show ?thesis
    using s a
    by (simp add: iterate_def for_range.simps deref_def begin_c_def end_c_def Iterator_def
        neq_def incr_def plus_assign_def ev2)
qed

section \<open>The size a resize asks for\<close>

text \<open>
  C9. \<^verbatim>\<open>resize(n)\<close> of a SoA container hands \<open>n\<close> to \<^verbatim>\<open>doResize\<close> through an
  \<^verbatim>\<open>unsigned\<close> parameter: when it returns, every array has length
  \<open>n mod 2\<^sup>3\<^sup>2\<close>, so does \<^verbatim>\<open>size()\<close>, and for every \<open>n \<ge> 2\<^sup>3\<^sup>2\<close> that is
  not \<open>n\<close>. Whenever \<^verbatim>\<open>resize(n)\<close> of an AoS container returns, it leaves
  exactly \<open>n\<close> items. The SoA half does not depend on the AoS call: for
  \<open>n = 2\<^sup>6\<^sup>3\<close> the AoS vector throws and the SoA container is emptied.
\<close>

theorem resize_SoA_truncates:
  assumes shape: "SoA_shape T (mValues c)"
    and soa: "resize SoA T c n = Inr c'"
  shows "(\<forall>xs \<in> set (mValues c'). length xs = unat n mod 2 ^ 32) \<and>
         unat (size_c SoA c') = unat n mod 2 ^ 32 \<and>
         (2 ^ 32 \<le> n \<longrightarrow> size_c SoA c' \<noteq> n) \<and>
         (\<forall>a a'. resize AoS T a n = Inr a' \<longrightarrow>
            length (mValues a') = unat n \<and> size_c AoS a' = n)"
proof -
  from shape have len: "length (mValues c) = sizeof_Types T" and pos: "0 < sizeof_Types T"
    by (simp_all add: SoA_shape_def)
  from soa obtain s where s: "SoA_resize T (mValues c) n = Inr s" and c': "mValues c' = s"
    by (auto simp: resize_def map_sum_eq_Inr)
  have len_s: "length s = sizeof_Types T"
    using s len by (rule SoA_resize_length)
  have nth: "length (s ! i) = unat n mod 2 ^ 32" if "i < sizeof_Types T" for i
    using s len that by (rule SoA_resize_length)
  have all: "\<forall>xs \<in> set (mValues c'). length xs = unat n mod 2 ^ 32"
    using c' len_s nth by (auto simp: in_set_conv_nth)
  have lt32: "unat n mod 2 ^ 32 < (2 ^ 32 :: nat)"
    by simp
  then have small: "unat n mod 2 ^ 32 < (2 ^ 64 :: nat)"
    by (rule less_trans) simp
  have size: "unat (size_c SoA c') = unat n mod 2 ^ 32"
    using c' nth [OF pos] small
    by (simp add: size_c_def SoA_size_def vec_size_def unat_of_nat_size_t)
  have differs: "size_c SoA c' \<noteq> n" if "2 ^ 32 \<le> n"
  proof
    assume "size_c SoA c' = n"
    with size lt32 have "unat n < 2 ^ 32"
      by metis
    moreover from that have "2 ^ 32 \<le> unat n"
      by (simp add: word_le_nat_alt)
    ultimately show False by simp
  qed
  have aos: "length (mValues a') = unat n \<and> size_c AoS a' = n"
    if "resize AoS T a n = Inr a'" for a a'
  proof -
    from that obtain t
      where t: "vec_resize (TItem_max_size T) (Types_init T) (mValues a) n = Inr t"
        and a': "mValues a' = t"
      by (auto simp: resize_def map_sum_eq_Inr AoS_resize_def)
    have "length (mValues a') = unat n"
      using vec_resize_length [OF t] a' by simp
    then show ?thesis
      by (simp add: size_c_def AoS_size_def vec_size_def)
  qed
  from all size differs aos show ?thesis
    by blast
qed

theorem resize_SoA_truncates_witness:
  "SoA_shape Item2 (mValues \<lparr>mValues = [[], []]\<rparr>) \<and>
   resize SoA Item2 \<lparr>mValues = [[], []]\<rparr> 4294967299
     = Inr \<lparr>mValues = [[0, 0, 0], [0, 0, 0]]\<rparr> \<and>
   resize AoS Item2 \<lparr>mValues = []\<rparr> 4294967299
     = Inr \<lparr>mValues = replicate 4294967299 [0, 0]\<rparr> \<and>
   map length (mValues \<lparr>mValues = [[0, 0, 0], [0, 0, 0 :: int]]\<rparr>) = [3, 3] \<and>
   unat (size_c SoA \<lparr>mValues = [[0, 0, 0], [0, 0, 0 :: int]]\<rparr>) = 3 \<and>
   size_c SoA \<lparr>mValues = [[0, 0, 0], [0, 0, 0 :: int]]\<rparr> \<noteq> 4294967299 \<and>
   size_c AoS \<lparr>mValues = replicate 4294967299 [0, 0 :: int]\<rparr> = 4294967299 \<and>
   resize SoA Item2 \<lparr>mValues = [[1], [2]]\<rparr> 9223372036854775808
     = Inr \<lparr>mValues = [[], []]\<rparr> \<and>
   resize AoS Item2 \<lparr>mValues = [[1, 2]]\<rparr> 9223372036854775808 = Inl length_error \<and>
   size_c SoA \<lparr>mValues = [[], [] :: int list]\<rparr> \<noteq> 9223372036854775808"
proof -
  have h1: "SoA_shape Item2 (mValues \<lparr>mValues = [[], []]\<rparr>)"
    by (simp add: SoA_shape_def ev)
  have "resize SoA Item2 \<lparr>mValues = [[], []]\<rparr> 4294967299
     = Inr \<lparr>mValues = replicate 3 0 # [replicate 3 0]\<rparr>"
    by (simp add: ev)
  then have h2: "resize SoA Item2 \<lparr>mValues = [[], []]\<rparr> 4294967299
     = Inr \<lparr>mValues = [[0, 0, 0], [0, 0, 0]]\<rparr>"
    by (simp add: eval_nat_numeral)
  have h3: "resize AoS Item2 \<lparr>mValues = []\<rparr> 4294967299
     = Inr \<lparr>mValues = replicate 4294967299 [0, 0]\<rparr>"
    by (simp add: ev)
  have le: "(2 ^ 32 :: size_t) \<le> 4294967299"
    by simp
  have g1: "SoA_shape Item2 (mValues \<lparr>mValues = [[1], [2]]\<rparr>)"
    by (simp add: SoA_shape_def ev)
  have g2: "resize SoA Item2 \<lparr>mValues = [[1], [2]]\<rparr> 9223372036854775808
     = Inr \<lparr>mValues = [[], []]\<rparr>"
    by (simp add: ev)
  have g3: "resize AoS Item2 \<lparr>mValues = [[1, 2]]\<rparr> 9223372036854775808 = Inl length_error"
    by (simp add: ev)
  have le': "(2 ^ 32 :: size_t) \<le> 9223372036854775808"
    by simp
  from resize_SoA_truncates [OF h1 h2] resize_SoA_truncates [OF g1 g2] le le' show ?thesis
    using h1 h2 h3 g2 g3 by simp
qed

section \<open>Writing through the SoA proxy\<close>

text \<open>
  C10. Let \<open>ws\<close> be the element view of a SoA container at an in-bounds position
  and \<open>k\<close> a field. Assigning an lvalue to the proxy \<open>ws ! k\<close> rebinds the
  proxy to the lvalue's object and leaves every array as it was, so the write
  through the temporary view returns the container unchanged and the field still
  reads its old value. Assigning an rvalue stores it in array \<open>k\<close> at the
  position, and the field reads it back.
\<close>

theorem lvalue_assignment_rebinds_proxy:
  assumes shape: "length (mValues c) = sizeof_Types T"
    and view: "subscript SoA T c position = Some (SoA_item ws)"
    and k: "k < sizeof_Types T"
  shows "assign (ws ! k) (Lvalue a v) (mValues c) = Some (ref_wrap (Outside a), mValues c) \<and>
         write_field SoA T c position k (Lvalue a v) = Some c \<and>
         read_field SoA T c position k = Some (mValues c ! k ! unat position) \<and>
         (\<exists>c'. write_field SoA T c position k (Rvalue v) = Some c' \<and>
               mValues c' = (mValues c)[k := (mValues c ! k)[unat position := v]] \<and>
               read_field SoA T c' position k = Some v)"
proof -
  from view shape have inb: "\<forall>i < sizeof_Types T. unat position < length (mValues c ! i)"
    and ws: "ws = map (\<lambda>i. ref_wrap (Slot i (unat position))) [0..<sizeof_Types T]"
    by (simp_all add: subscript_SoA)
  from ws k have wk: "ws ! k = ref_wrap (Slot k (unat position))" and lws: "k < length ws"
    by simp_all
  have l1: "assign (ws ! k) (Lvalue a v) (mValues c) = Some (ref_wrap (Outside a), mValues c)"
    by (simp add: assign_copy_def)
  have l2: "write_field SoA T c position k (Lvalue a v) = Some c"
    using view lws by (simp add: write_field_def)
  have l3: "read_field SoA T c position k = Some (mValues c ! k ! unat position)"
    using shape inb k by (rule read_field_SoA)
  define c' where "c' = c\<lparr>mValues := (mValues c)[k := (mValues c ! k)[unat position := v]]\<rparr>"
  have r1: "write_field SoA T c position k (Rvalue v) = Some c'"
    using view lws wk shape k inb
    by (simp add: write_field_def assign_rvalue_def store_def c'_def)
  have "read_field SoA T c' position k = Some (mValues c' ! k ! unat position)"
  proof (rule read_field_SoA)
    show "length (mValues c') = sizeof_Types T"
      using shape by (simp add: c'_def)
    show "\<forall>i < sizeof_Types T. unat position < length (mValues c' ! i)"
      using inb shape k by (simp add: c'_def nth_list_update)
    show "k < sizeof_Types T"
      by (rule k)
  qed
  then have r2: "read_field SoA T c' position k = Some v"
    using shape k inb by (simp add: c'_def)
  from l1 l2 l3 r1 r2 show ?thesis
    by (auto simp: c'_def)
qed

theorem lvalue_assignment_rebinds_proxy_witness:
  "length (mValues \<lparr>mValues = [[1, 2], [3, 4 :: int]]\<rparr>) = sizeof_Types Item2 \<and>
   subscript SoA Item2 \<lparr>mValues = [[1, 2], [3, 4]]\<rparr> 1
     = Some (SoA_item [ref_wrap (Slot 0 1), ref_wrap (Slot 1 1)]) \<and>
   assign (ref_wrap (Slot 0 1)) (Lvalue 100 9) [[1, 2], [3, 4 :: int]]
     = Some (ref_wrap (Outside 100), [[1, 2], [3, 4]]) \<and>
   write_field SoA Item2 \<lparr>mValues = [[1, 2], [3, 4]]\<rparr> 1 0 (Lvalue 100 9)
     = Some \<lparr>mValues = [[1, 2], [3, 4]]\<rparr> \<and>
   read_field SoA Item2 \<lparr>mValues = [[1, 2], [3, 4]]\<rparr> 1 0 = Some 2 \<and>
   write_field SoA Item2 \<lparr>mValues = [[1, 2], [3, 4]]\<rparr> 1 0 (Rvalue 9)
     = Some \<lparr>mValues = [[1, 9], [3, 4]]\<rparr>"
proof -
  have h1: "length (mValues \<lparr>mValues = [[1, 2], [3, 4 :: int]]\<rparr>) = sizeof_Types Item2"
    by (simp add: ev)
  have h2: "subscript SoA Item2 \<lparr>mValues = [[1, 2], [3, 4]]\<rparr> 1
     = Some (SoA_item [ref_wrap (Slot 0 1), ref_wrap (Slot 1 1)])"
    by (simp add: ev2)
  have h3: "0 < sizeof_Types Item2"
    by (simp add: ev)
  from lvalue_assignment_rebinds_proxy [OF h1 h2 h3, of 100 9] show ?thesis
    using h1 h2 by (simp add: ev2)
qed

section \<open>Where the program departs from its description\<close>

text \<open>
  C4. Writing a field through the element view at an in-bounds position and
  reading it back through a fresh view should give the written value. In a SoA
  container of one element, \<^verbatim>\<open>std::get<0>(c[0]) = x\<close> with \<open>x\<close> a variable
  holding 5 leaves the container as it was, and the field reads 0. The same
  statement on an AoS container stores 5.
\<close>

theorem lvalue_write_is_lost:
  "BaseContainer SoA Item2 1 = Inr \<lparr>mValues = [[0], [0]]\<rparr> \<and>
   write_field SoA Item2 \<lparr>mValues = [[0], [0]]\<rparr> 0 0 (Lvalue 100 5)
     = Some \<lparr>mValues = [[0], [0]]\<rparr> \<and>
   read_field SoA Item2 \<lparr>mValues = [[0], [0]]\<rparr> 0 0 = Some 0 \<and>
   BaseContainer AoS Item2 1 = Inr \<lparr>mValues = [[0, 0]]\<rparr> \<and>
   write_field AoS Item2 \<lparr>mValues = [[0, 0]]\<rparr> 0 0 (Lvalue 100 5)
     = Some \<lparr>mValues = [[5, 0]]\<rparr> \<and>
   read_field AoS Item2 \<lparr>mValues = [[5, 0]]\<rparr> 0 0 = Some 5"
  by (simp add: ev2)

text \<open>
  C1. The same calls on an AoS and on a SoA container of the same item type
  should leave the same field values at every position. After the write
  \<^verbatim>\<open>std::get<0>(c[0]) = x\<close> (\<open>x\<close> a variable holding 5) on containers of one
  element, field 0 reads 5 in the AoS container and 0 in the SoA container.
  After \<^verbatim>\<open>resize(4294967296)\<close> the AoS container has \<open>2\<^sup>3\<^sup>2\<close> elements and
  position 0 reads 0; the SoA container is empty and position 0 is out of range.
\<close>

theorem layouts_diverge:
  "BaseContainer AoS Item2 1 = Inr \<lparr>mValues = [[0, 0]]\<rparr> \<and>
   BaseContainer SoA Item2 1 = Inr \<lparr>mValues = [[0], [0]]\<rparr> \<and>
   run AoS Item2 \<lparr>mValues = [[0, 0]]\<rparr> [Write 0 0 (Lvalue 100 5)]
     = Inr \<lparr>mValues = [[5, 0]]\<rparr> \<and>
   run SoA Item2 \<lparr>mValues = [[0], [0]]\<rparr> [Write 0 0 (Lvalue 100 5)]
     = Inr \<lparr>mValues = [[0], [0]]\<rparr> \<and>
   observe AoS Item2 \<lparr>mValues = [[5, 0]]\<rparr> = [[Some 5, Some 0]] \<and>
   observe SoA Item2 \<lparr>mValues = [[0], [0]]\<rparr> = [[Some 0, Some 0]] \<and>
   run AoS Item2 \<lparr>mValues = [[0, 0]]\<rparr> [Resize 4294967296]
     = Inr \<lparr>mValues = [0, 0] # replicate 4294967295 [0, 0]\<rparr> \<and>
   run SoA Item2 \<lparr>mValues = [[0], [0]]\<rparr> [Resize 4294967296]
     = Inr \<lparr>mValues = [[], []]\<rparr> \<and>
   read_field AoS Item2 \<lparr>mValues = [0, 0] # replicate 4294967295 [0, 0]\<rparr> 0 0 = Some 0 \<and>
   read_field SoA Item2 \<lparr>mValues = [[], []]\<rparr> 0 0 = None"
  by (simp add: ev2)

text \<open>
  C5. Constructing a container with initial size \<open>N\<close> should give
  \<^verbatim>\<open>size() == N\<close>. For SoA and \<open>N = 2\<^sup>3\<^sup>2\<close> the arrays are empty and
  \<^verbatim>\<open>size()\<close> is 0; for AoS \<^verbatim>\<open>size()\<close> is \<open>2\<^sup>3\<^sup>2\<close>.
\<close>

theorem SoA_constructor_truncates:
  "BaseContainer SoA Item2 4294967296 = Inr \<lparr>mValues = [[], []]\<rparr> \<and>
   size_c SoA \<lparr>mValues = [[], [] :: int list]\<rparr> = 0 \<and>
   BaseContainer AoS Item2 4294967296 = Inr \<lparr>mValues = replicate 4294967296 [0, 0]\<rparr> \<and>
   size_c AoS \<lparr>mValues = replicate 4294967296 [0, 0 :: int]\<rparr> = 4294967296"
  by (simp add: ev2)

text \<open>
  C8. Assigning one iterator to another should copy the position, keep the
  container and leave an iterator that reads that container at the copied
  position. The statements of \<^verbatim>\<open>operator=(Iterator const&)\<close> do copy the
  position and keep the container, but the function runs off its end without a
  \<^verbatim>\<open>return\<close>: the assignment has no defined outcome, and neither has the
  dereference that follows it.
\<close>

theorem copy_assignment_runs_off_its_end:
  "snd (assign_it it other) = No_return \<and>
   mContainer (fst (assign_it it other)) = mContainer it \<and>
   mIterPosition (fst (assign_it it other)) = mIterPosition other \<and>
   assign_then_deref L T h it other = None \<and>
   assign_it (begin_c 7) (end_c AoS 7 \<lparr>mValues = [[1, 2 :: int]]\<rparr>)
     = (\<lparr>mContainer = 7, mIterPosition = 1\<rparr>, No_return) \<and>
   assign_then_deref AoS Item2 (Map.empty(7 \<mapsto> \<lparr>mValues = [[1, 2]]\<rparr>))
     (begin_c 7) (end_c AoS 7 \<lparr>mValues = [[1, 2]]\<rparr>) = None"
  by (simp add: assign_it_def assign_then_deref_def begin_c_def end_c_def Iterator_def
      size_c_def AoS_size_def vec_size_def)

text \<open>
  C7. The null state of an iterator should be the largest position, and differ
  from every valid end iterator. Assigning \<^verbatim>\<open>nullptr\<close> stores
  \<^verbatim>\<open>infinity()\<close>, which is 0 (as do the default member initialisers), not the
  largest position: the null iterator equals \<^verbatim>\<open>end()\<close> of an empty container
  of either layout, and \<^verbatim>\<open>begin()\<close> of every container. The assignment also
  runs off its end without a \<^verbatim>\<open>return\<close>.
\<close>

theorem null_iterator_is_position_zero:
  "mIterPosition (fst (assign_nullptr it)) = 0 \<and>
   snd (assign_nullptr it) = No_return \<and>
   mIterPosition Iterator_init = 0 \<and>
   mIterPosition (fst (assign_nullptr it)) \<noteq> numeric_limits_max \<and>
   BaseContainer L Item2 0 = Inr \<lparr>mValues = mValues_init L Item2\<rparr> \<and>
   eq (fst (assign_nullptr it)) (end_c L this \<lparr>mValues = mValues_init L Item2\<rparr>) \<and>
   eq (fst (assign_nullptr it)) (begin_c this)"
  apply (cases L)
  apply (simp_all add: ev2 assign_nullptr_def numeric_limits_infinity_def numeric_limits_max_def
      Iterator_init_def eq_def neq_def end_c_def begin_c_def Iterator_def)
  done

end
